theory Spec2Isabelle
  imports Main
begin

section \<open>Notebook editor: cells, row delegate, renderers and editor host\<close>

text \<open>
  A shallow embedding of \<^verbatim>\<open>src/vs/workbench/contrib/notebook/browser/notebookEditor.ts\<close>.
  Cells are JavaScript objects compared by reference, so a cell is an address into a heap
  of \<open>ICell\<close> records; arrays of cells are lists of addresses. Array indices are \<open>int\<close>,
  because \<^verbatim>\<open>indexOf\<close> answers \<open>-1\<close> on a miss and \<^verbatim>\<open>splice\<close> accepts a negative start.
  Pixel sizes are whole numbers of pixels (\<open>int\<close>).
\<close>

subsection \<open>Cells\<close>

type_synonym cell_ref = nat

record ICell =
  cell_type :: string
  source :: "string list"

datatype direction = above | below

datatype error = TypeError

subsection \<open>JavaScript arrays\<close>

text \<open>
  \<^verbatim>\<open>Array.prototype.indexOf\<close>: the first index holding the searched value (strict equality,
  which on objects is identity of reference), \<open>-1\<close> when there is none.
\<close>

fun indexOf_from :: "'a list \<Rightarrow> 'a \<Rightarrow> int \<Rightarrow> int" where
  "indexOf_from [] c k = - 1"
| "indexOf_from (x # xs) c k = (if x = c then k else indexOf_from xs c (k + 1))"

definition indexOf :: "'a list \<Rightarrow> 'a \<Rightarrow> int" where
  "indexOf xs c = indexOf_from xs c 0"

text \<open>
  \<^verbatim>\<open>Array.prototype.splice(start, deleteCount, ...items)\<close>: a negative start counts from the
  end and is clamped at 0, a start beyond the end is clamped at the length, and the delete
  count is clamped to what is left after the start.
\<close>

definition Array_splice :: "int \<Rightarrow> int \<Rightarrow> 'a list \<Rightarrow> 'a list \<Rightarrow> 'a list" where
  "Array_splice start deleteCount items xs =
     (let len = int (length xs);
          actualStart = (if start < 0 then max (len + start) 0 else min start len);
          actualDeleteCount = min (max deleteCount 0) (len - actualStart)
      in take (nat actualStart) xs @ items @ drop (nat (actualStart + actualDeleteCount)) xs)"

subsection \<open>NotebookCellListDelegate\<close>

text \<open>
  The delegate holds \<^verbatim>\<open>_lineHeight\<close>, read once from the editor's font settings; it is the
  first argument of \<open>getHeight\<close>.
\<close>

definition MarkdownCellRenderer_TEMPLATE_ID :: string where
  "MarkdownCellRenderer_TEMPLATE_ID = ''markdown_cell''"

definition CodeCellRenderer_TEMPLATE_ID :: string where
  "CodeCellRenderer_TEMPLATE_ID = ''code_cell''"

definition getHeight :: "int \<Rightarrow> ICell \<Rightarrow> int" where
  "getHeight lineHeight element =
     (if cell_type element = ''markdown'' then 100
      else max (int (length (source element)) + 1) 4 * lineHeight + 16)"

definition hasDynamicHeight :: "ICell \<Rightarrow> bool" where
  "hasDynamicHeight element = (cell_type element = ''markdown'')"

definition getTemplateId :: "ICell \<Rightarrow> string" where
  "getTemplateId element =
     (if cell_type element = ''markdown'' then MarkdownCellRenderer_TEMPLATE_ID
      else CodeCellRenderer_TEMPLATE_ID)"

subsection \<open>NotebookEditor: the document model and the List View\<close>

text \<open>
  Modelled from the spec: the List View's \<^verbatim>\<open>splice(startIndex, deleteCount, itemsToInsert)\<close>
  (\<^verbatim>\<open>WorkbenchList.splice\<close>, which is not part of this file). The spec gives it as the
  operation that reflects a document mutation in the row sequence at a start index of
  that sequence, from 0 to the number of rows. A start outside this range is no index of
  the List View (the spec calls an insert with the index \<open>-1\<close> state-corrupting): the
  List View rejects it with a \<^verbatim>\<open>ListError\<close> and its rows stay as they are.
\<close>

definition List_splice_rejects :: "int \<Rightarrow> 'a list \<Rightarrow> bool" where
  "List_splice_rejects start rows = (start < 0 \<or> int (length rows) < start)"

definition List_splice :: "int \<Rightarrow> int \<Rightarrow> 'a list \<Rightarrow> 'a list \<Rightarrow> 'a list" where
  "List_splice start deleteCount elements rows =
     (if List_splice_rejects start rows then rows
      else Array_splice start deleteCount elements rows)"

text \<open>
  The editor's state: the heap of cell objects with its allocation counter,
  \<^verbatim>\<open>this.model\<close> (the cells array of the resolved notebook, undefined before \<open>setInput\<close>)
  and \<^verbatim>\<open>this.list\<close> (the rows of the List View, undefined before \<^verbatim>\<open>createCellList\<close>).
\<close>

record NotebookEditor =
  heap :: "cell_ref \<Rightarrow> ICell"
  next_ref :: cell_ref
  model :: "cell_ref list option"
  list :: "cell_ref list option"

text \<open>
  \<open>setInput\<close>, once the input has resolved to a notebook whose cells array is \<open>cs\<close>:
  \<^verbatim>\<open>this.model = model; this.list?.splice(0, 0, model.getNookbook().cells)\<close>.
\<close>

definition setInput :: "NotebookEditor \<Rightarrow> cell_ref list \<Rightarrow> NotebookEditor" where
  "setInput e cs = e\<lparr>model := Some cs, list := map_option (List_splice 0 0 cs) (list e)\<rparr>"

text \<open>
  \<open>insertEmptyNotebookCell\<close>: the object literal allocates a new cell; \<^verbatim>\<open>this.model!\<close> on an
  undefined model is a \<open>TypeError\<close>; the index found by \<open>indexOf\<close> is used as it is.
  The document is spliced before the List View: the result is the state the call leaves
  behind, also when the List View rejects the index.
\<close>

definition insertEmptyNotebookCell ::
  "NotebookEditor \<Rightarrow> cell_ref \<Rightarrow> direction \<Rightarrow> error + NotebookEditor" where
  "insertEmptyNotebookCell e cell dir =
     (let newCell = next_ref e;
          e1 = e\<lparr>heap := (heap e)(newCell := \<lparr>cell_type = ''code'', source = []\<rparr>),
                 next_ref := Suc newCell\<rparr>
      in case model e1 of
           None \<Rightarrow> Inl TypeError
         | Some cells \<Rightarrow>
             let index = indexOf cells cell;
                 insertIndex = (if dir = above then index else index + 1)
             in Inr (e1\<lparr>model := Some (Array_splice insertIndex 0 [newCell] cells),
                         list := map_option (List_splice insertIndex 0 [newCell]) (list e1)\<rparr>))"

text \<open>A sequence of inserts, each on the state the previous one left.\<close>

fun insertAll :: "NotebookEditor \<Rightarrow> (cell_ref \<times> direction) list \<Rightarrow> error + NotebookEditor" where
  "insertAll e [] = Inr e"
| "insertAll e ((cell, dir) # ops) =
     (case insertEmptyNotebookCell e cell dir of
        Inl err \<Rightarrow> Inl err
      | Inr e' \<Rightarrow> insertAll e' ops)"

text \<open>
  The sequences of inserts in which every anchor is a cell of the document at the time
  of its insert.
\<close>

fun anchors_in_document :: "NotebookEditor \<Rightarrow> (cell_ref \<times> direction) list \<Rightarrow> bool" where
  "anchors_in_document e [] = True"
| "anchors_in_document e ((cell, dir) # ops) =
     (case model e of
        None \<Rightarrow> False
      | Some cells \<Rightarrow>
          cell \<in> set cells \<and>
          (case insertEmptyNotebookCell e cell dir of
             Inl err \<Rightarrow> False
           | Inr e' \<Rightarrow> anchors_in_document e' ops))"

subsection \<open>The page: listeners, markup and embedded editors\<close>

type_synonym html_element = nat
type_synonym listener_id = nat
type_synonym editor_ref = nat
type_synonym marked_Renderer = unit

text \<open>
  A live \<^verbatim>\<open>mousedown\<close> listener: the node it is attached to and the cell its handler closed
  over (the handler calls \<^verbatim>\<open>this.showContextMenu(element, ...)\<close>).
\<close>

record DomListener =
  l_id :: listener_id
  l_node :: html_element
  l_element :: cell_ref

record CodeEditorWidget =
  textModel :: "string option"
  layoutWidth :: int
  layoutHeight :: int

record dom =
  listeners :: "DomListener list"
  next_listener :: listener_id
  innerHTML :: "html_element \<Rightarrow> string"
  clientWidth :: "html_element \<Rightarrow> int"
  editors :: "editor_ref \<Rightarrow> CodeEditorWidget"

record CellRenderTemplate =
  cellContainer :: html_element
  menuContainer :: html_element
  renderer :: "marked_Renderer option"
  editor :: "editor_ref option"

text \<open>
  Modelled from the spec: \<^verbatim>\<open>DOM.addStandardDisposableListener\<close> (not part of this file)
  attaches a listener to the node and returns the handle that detaches it; disposing a
  handle detaches that listener and no other, and disposing it again does nothing.
\<close>

definition addStandardDisposableListener ::
  "dom \<Rightarrow> html_element \<Rightarrow> cell_ref \<Rightarrow> listener_id \<times> dom" where
  "addStandardDisposableListener d n c =
     (next_listener d,
      d\<lparr>listeners := listeners d @ [\<lparr>l_id = next_listener d, l_node = n, l_element = c\<rparr>],
        next_listener := Suc (next_listener d)\<rparr>)"

definition dispose :: "dom \<Rightarrow> listener_id \<Rightarrow> dom" where
  "dispose d k = d\<lparr>listeners := filter (\<lambda>l. l_id l \<noteq> k) (listeners d)\<rparr>"

text \<open>
  A \<^verbatim>\<open>mousedown\<close> on a node runs every live listener attached to it, in the order of
  attachment; the result lists the cells whose context menu is shown.
\<close>

definition mousedown :: "dom \<Rightarrow> html_element \<Rightarrow> cell_ref list" where
  "mousedown d n = map l_element (filter (\<lambda>l. l_node l = n) (listeners d))"

definition listeners_on :: "dom \<Rightarrow> html_element \<Rightarrow> DomListener list" where
  "listeners_on d n = filter (\<lambda>l. l_node l = n) (listeners d)"

subsection \<open>MarkdownCellRenderer\<close>

text \<open>
  The renderer's own state is its map of disposables, keyed by the menu container. The
  markdown engine \<^verbatim>\<open>marked\<close> is a parameter. The renderer has no \<^verbatim>\<open>disposeElement\<close>.
\<close>

record MarkdownCellRenderer =
  md_disposables :: "html_element \<rightharpoonup> listener_id"

definition md_renderElement ::
  "(string \<Rightarrow> marked_Renderer option \<Rightarrow> string) \<Rightarrow> (cell_ref \<Rightarrow> ICell) \<Rightarrow>
   MarkdownCellRenderer \<times> dom \<Rightarrow> cell_ref \<Rightarrow> int \<Rightarrow> CellRenderTemplate \<Rightarrow>
   MarkdownCellRenderer \<times> dom" where
  "md_renderElement marked h rd element index templateData =
     (let r = fst rd; d = snd rd;
          d1 = d\<lparr>innerHTML := (innerHTML d)(cellContainer templateData :=
                    marked (concat (source (h element))) (renderer templateData))\<rparr>;
          disposable = md_disposables r (menuContainer templateData);
          d2 = (case disposable of None \<Rightarrow> d1 | Some k \<Rightarrow> dispose d1 k);
          r2 = (case disposable of
                  None \<Rightarrow> r
                | Some k \<Rightarrow> r\<lparr>md_disposables := (md_disposables r)(menuContainer templateData := None)\<rparr>);
          la = addStandardDisposableListener d2 (menuContainer templateData) element
      in (r2\<lparr>md_disposables := (md_disposables r2)(menuContainer templateData \<mapsto> fst la)\<rparr>,
          snd la))"

subsection \<open>CodeCellRenderer\<close>

text \<open>
  The renderer's own state is its map of disposables, keyed by the cell. The editor's text
  model is bound and the editor laid out only when the template has an editor
  (\<^verbatim>\<open>templateData.editor?.\<close>). The resource name of the text model is left out.
\<close>

record CodeCellRenderer =
  code_disposables :: "cell_ref \<rightharpoonup> listener_id"

definition code_renderElement ::
  "(cell_ref \<Rightarrow> ICell) \<Rightarrow> CodeCellRenderer \<times> dom \<Rightarrow> cell_ref \<Rightarrow> int \<Rightarrow> CellRenderTemplate \<Rightarrow>
   CodeCellRenderer \<times> dom" where
  "code_renderElement h rd element index templateData =
     (let r = fst rd; d = snd rd;
          innerContent = cellContainer templateData;
          width = clientWidth d innerContent;
          lineNum = int (length (source (h element)));
          totalHeight = max (lineNum + 1) 4 * 21;
          textOfModel = concat (source (h element));
          d1 = (case editor templateData of
                  None \<Rightarrow> d
                | Some ed \<Rightarrow> d\<lparr>editors := (editors d)(ed := (editors d ed)\<lparr>textModel := Some textOfModel\<rparr>)\<rparr>);
          d2 = (case editor templateData of
                  None \<Rightarrow> d1
                | Some ed \<Rightarrow> d1\<lparr>editors := (editors d1)(ed :=
                    (editors d1 ed)\<lparr>layoutWidth := width, layoutHeight := totalHeight\<rparr>)\<rparr>);
          la = addStandardDisposableListener d2 (menuContainer templateData) element
      in (r\<lparr>code_disposables := (code_disposables r)(element \<mapsto> fst la)\<rparr>, snd la))"

definition code_disposeElement ::
  "CodeCellRenderer \<times> dom \<Rightarrow> cell_ref \<Rightarrow> int \<Rightarrow> CellRenderTemplate \<Rightarrow> CodeCellRenderer \<times> dom" where
  "code_disposeElement rd element index templateData =
     (let r = fst rd; d = snd rd
      in case code_disposables r element of
           None \<Rightarrow> (r, d)
         | Some k \<Rightarrow> (r\<lparr>code_disposables := (code_disposables r)(element := None)\<rparr>, dispose d k))"

subsection \<open>Sequences of calls made by the List View\<close>

datatype call =
  RenderElement cell_ref int CellRenderTemplate
| DisposeElement cell_ref int CellRenderTemplate

text \<open>
  The List View calls \<^verbatim>\<open>disposeElement\<close> only on a renderer that has one: for the markdown
  renderer the call does not happen.
\<close>

fun md_calls ::
  "(string \<Rightarrow> marked_Renderer option \<Rightarrow> string) \<Rightarrow> (cell_ref \<Rightarrow> ICell) \<Rightarrow>
   MarkdownCellRenderer \<times> dom \<Rightarrow> call list \<Rightarrow> MarkdownCellRenderer \<times> dom" where
  "md_calls marked h rd [] = rd"
| "md_calls marked h rd (RenderElement c i t # cs) =
     md_calls marked h (md_renderElement marked h rd c i t) cs"
| "md_calls marked h rd (DisposeElement c i t # cs) = md_calls marked h rd cs"

fun code_calls ::
  "(cell_ref \<Rightarrow> ICell) \<Rightarrow> CodeCellRenderer \<times> dom \<Rightarrow> call list \<Rightarrow> CodeCellRenderer \<times> dom" where
  "code_calls h rd [] = rd"
| "code_calls h rd (RenderElement c i t # cs) = code_calls h (code_renderElement h rd c i t) cs"
| "code_calls h rd (DisposeElement c i t # cs) = code_calls h (code_disposeElement rd c i t) cs"

text \<open>
  Which cell each row slot (named by its menu container) shows, in the order the slots
  were populated. For the markdown renderer a slot shows the cell it was last populated
  with.
\<close>

fun md_shown :: "(html_element \<times> cell_ref) list \<Rightarrow> call list \<Rightarrow> (html_element \<times> cell_ref) list" where
  "md_shown b [] = b"
| "md_shown b (RenderElement c i t # cs) =
     md_shown (filter (\<lambda>p. fst p \<noteq> menuContainer t) b @ [(menuContainer t, c)]) cs"
| "md_shown b (DisposeElement c i t # cs) = md_shown b cs"

text \<open>
  For the code renderer a slot shows a cell from its \<open>RenderElement\<close> to the
  \<open>DisposeElement\<close> of that cell.
\<close>

fun code_shown :: "(html_element \<times> cell_ref) list \<Rightarrow> call list \<Rightarrow> (html_element \<times> cell_ref) list" where
  "code_shown b [] = b"
| "code_shown b (RenderElement c i t # cs) = code_shown (b @ [(menuContainer t, c)]) cs"
| "code_shown b (DisposeElement c i t # cs) =
     code_shown (filter (\<lambda>p. p \<noteq> (menuContainer t, c)) b) cs"

text \<open>
  The recycle protocol of a virtualized list: a slot is populated only while it shows no
  cell, a cell is populated only while no slot shows it, and \<open>DisposeElement\<close> is called
  for a cell and the slot that shows it.
\<close>

fun recycle_protocol :: "(html_element \<times> cell_ref) list \<Rightarrow> call list \<Rightarrow> bool" where
  "recycle_protocol b [] = True"
| "recycle_protocol b (RenderElement c i t # cs) =
     (menuContainer t \<notin> fst ` set b \<and> c \<notin> snd ` set b \<and>
      recycle_protocol (b @ [(menuContainer t, c)]) cs)"
| "recycle_protocol b (DisposeElement c i t # cs) =
     ((menuContainer t, c) \<in> set b \<and>
      recycle_protocol (filter (\<lambda>p. p \<noteq> (menuContainer t, c)) b) cs)"

definition shown_in :: "(html_element \<times> cell_ref) list \<Rightarrow> html_element \<Rightarrow> cell_ref list" where
  "shown_in b n = map snd (filter (\<lambda>p. fst p = n) b)"

subsection \<open>Invariants of the renderers\<close>

text \<open>The slot a listener is attached to, and the cell it opens the context menu for.\<close>

definition slot_of :: "DomListener \<Rightarrow> html_element \<times> cell_ref" where
  "slot_of l = (l_node l, l_element l)"

text \<open>
  The code renderer under the recycle protocol: the live listeners are those of the slots
  that show a cell, the renderer's map holds the handle of each, handles are never
  reused, and no slot or cell occurs twice.
\<close>

definition code_inv :: "CodeCellRenderer \<times> dom \<Rightarrow> (html_element \<times> cell_ref) list \<Rightarrow> bool" where
  "code_inv rd b =
     (map slot_of (listeners (snd rd)) = b \<and>
      (\<forall>l\<in>set (listeners (snd rd)). code_disposables (fst rd) (l_element l) = Some (l_id l)) \<and>
      (\<forall>l\<in>set (listeners (snd rd)). l_id l < next_listener (snd rd)) \<and>
      distinct (map l_id (listeners (snd rd))) \<and>
      distinct (map snd b) \<and> distinct (map fst b))"

text \<open>
  The markdown renderer: the same, with the map keyed by the slot, and every entry of
  the map being the handle of a live listener on that slot.
\<close>

definition md_inv :: "MarkdownCellRenderer \<times> dom \<Rightarrow> (html_element \<times> cell_ref) list \<Rightarrow> bool" where
  "md_inv rd b =
     (map slot_of (listeners (snd rd)) = b \<and>
      (\<forall>l\<in>set (listeners (snd rd)). md_disposables (fst rd) (l_node l) = Some (l_id l)) \<and>
      (\<forall>l\<in>set (listeners (snd rd)). l_id l < next_listener (snd rd)) \<and>
      distinct (map l_id (listeners (snd rd))) \<and>
      distinct (map fst b) \<and>
      (\<forall>n k. md_disposables (fst rd) n = Some k \<longrightarrow>
         (\<exists>l\<in>set (listeners (snd rd)). l_node l = n \<and> l_id l = k)))"

subsection \<open>A small notebook, used to run the definitions\<close>

definition example_heap :: "cell_ref \<Rightarrow> ICell" where
  "example_heap =
     (\<lambda>r. if r = 0 then \<lparr>cell_type = ''markdown'', source = [''# Title'']\<rparr>
          else \<lparr>cell_type = ''code'', source = [''x=1'']\<rparr>)"

definition example_editor :: NotebookEditor where
  "example_editor = \<lparr>heap = example_heap, next_ref = 2, model = Some [0, 1], list = Some [0, 1]\<rparr>"

definition example_opened :: NotebookEditor where
  "example_opened = setInput (example_editor\<lparr>model := None, list := Some []\<rparr>) [0, 1]"

definition example_dom :: dom where
  "example_dom =
     \<lparr>listeners = [], next_listener = 0, innerHTML = (\<lambda>n. []), clientWidth = (\<lambda>n. 800),
      editors = (\<lambda>ed. \<lparr>textModel = None, layoutWidth = 0, layoutHeight = 0\<rparr>)\<rparr>"

definition example_template :: CellRenderTemplate where
  "example_template = \<lparr>cellContainer = 10, menuContainer = 11, renderer = None, editor = Some 0\<rparr>"

section \<open>Arrays\<close>

lemma indexOf_from_first:
  "i < length xs \<Longrightarrow> xs ! i = c \<Longrightarrow> c \<notin> set (take i xs) \<Longrightarrow> indexOf_from xs c k = k + int i"
proof (induction xs arbitrary: i k)
  case Nil
  then show ?case by simp
next
  case (Cons x xs)
  show ?case
  proof (cases i)
    case 0
    with Cons.prems show ?thesis by simp
  next
    case (Suc j)
    with Cons.prems have "x \<noteq> c" "j < length xs" "xs ! j = c" "c \<notin> set (take j xs)"
      by auto
    with Cons.IH [of j "k + 1"] Suc show ?thesis by simp
  qed
qed

lemma indexOf_from_absent: "c \<notin> set xs \<Longrightarrow> indexOf_from xs c k = - 1"
  by (induction xs arbitrary: k) auto

lemma indexOf_first:
  "i < length xs \<Longrightarrow> xs ! i = c \<Longrightarrow> c \<notin> set (take i xs) \<Longrightarrow> indexOf xs c = int i"
  using indexOf_from_first [of i xs c 0] by (simp add: indexOf_def)

lemma indexOf_absent: "c \<notin> set xs \<Longrightarrow> indexOf xs c = - 1"
  by (simp add: indexOf_def indexOf_from_absent)

lemma splice_insert_in_range:
  "i \<le> length xs \<Longrightarrow> Array_splice (int i) 0 items xs = take i xs @ items @ drop i xs"
  by (simp add: Array_splice_def Let_def min_def)

lemma splice_insert_minus_one:
  "Array_splice (- 1) 0 items xs = take (length xs - 1) xs @ items @ drop (length xs - 1) xs"
  by (cases xs) (simp_all add: Array_splice_def Let_def max_def)

lemma nth_insert_at:
  "i \<le> length xs \<Longrightarrow>
   (take i xs @ x # drop i xs) ! j =
     (if j < i then xs ! j else if j = i then x else xs ! (j - 1))"
  by (auto simp add: nth_append min_def)

section \<open>The row delegate\<close>

text \<open>
  C4: for a code cell with \<open>n\<close> source lines the delegate's \<open>getHeight\<close> is
  \<open>max (n + 1) 4 * lineHeight + 16\<close>; for a markdown cell it is the fixed placeholder
  height 100, whatever the cell's source and the line height.
\<close>

theorem getHeight_formula:
  "(cell_type c = ''code'' \<longrightarrow>
      getHeight lineHeight c = max (int (length (source c)) + 1) 4 * lineHeight + 16) \<and>
   (cell_type c = ''markdown'' \<longrightarrow> getHeight lineHeight c = 100)"
  by (simp add: getHeight_def)

theorem getHeight_formula_witness:
  "getHeight 21 \<lparr>cell_type = ''code'', source = [''x=1'']\<rparr> = 4 * 21 + 16 \<and>
   getHeight 21 \<lparr>cell_type = ''markdown'', source = [''# Title'', ''text'']\<rparr> = 100"
  using getHeight_formula [of "\<lparr>cell_type = ''code'', source = [''x=1'']\<rparr>" 21]
    getHeight_formula [of "\<lparr>cell_type = ''markdown'', source = [''# Title'', ''text'']\<rparr>" 21]
  by simp

text \<open>
  C6: \<open>hasDynamicHeight\<close> is true exactly for the cells whose \<open>cell_type\<close> is
  \<open>markdown\<close>.
\<close>

theorem hasDynamicHeight_iff_markdown:
  "hasDynamicHeight c = (cell_type c = ''markdown'')"
  by (simp add: hasDynamicHeight_def)

theorem hasDynamicHeight_iff_markdown_witness:
  "hasDynamicHeight \<lparr>cell_type = ''markdown'', source = []\<rparr> \<and>
   \<not> hasDynamicHeight \<lparr>cell_type = ''code'', source = []\<rparr>"
  using hasDynamicHeight_iff_markdown [of "\<lparr>cell_type = ''markdown'', source = []\<rparr>"]
    hasDynamicHeight_iff_markdown [of "\<lparr>cell_type = ''code'', source = []\<rparr>"]
  by simp

text \<open>
  C7, as the claim states it, fails: an empty code cell and a code cell of one line are
  both laid out as four lines, so the cell with more lines is not strictly higher.
\<close>

theorem getHeight_not_strictly_increasing:
  "(0::int) < 21 \<and>
   length (source \<lparr>cell_type = ''code'', source = []\<rparr>) <
     length (source \<lparr>cell_type = ''code'', source = [''x=1'']\<rparr>) \<and>
   getHeight 21 \<lparr>cell_type = ''code'', source = []\<rparr> = 100 \<and>
   getHeight 21 \<lparr>cell_type = ''code'', source = [''x=1'']\<rparr> = 100 \<and>
   \<not> getHeight 21 \<lparr>cell_type = ''code'', source = []\<rparr> <
       getHeight 21 \<lparr>cell_type = ''code'', source = [''x=1'']\<rparr>"
  by (simp add: getHeight_def)

text \<open>
  C7, amended: for a positive line height the height of a code cell never decreases as
  its number of source lines grows, and of two code cells with \<open>n1 < n2\<close> lines the second
  is strictly higher exactly when \<open>n2\<close> is at least 4 (where the minimum of four lines no
  longer applies to it).
\<close>

theorem getHeight_monotone:
  "0 < lineHeight \<Longrightarrow> cell_type c1 = ''code'' \<Longrightarrow> cell_type c2 = ''code'' \<Longrightarrow>
   length (source c1) < length (source c2) \<Longrightarrow>
   getHeight lineHeight c1 \<le> getHeight lineHeight c2 \<and>
   (getHeight lineHeight c1 < getHeight lineHeight c2) = (4 \<le> length (source c2))"
  by (auto simp add: getHeight_def max_def)

theorem getHeight_monotone_witness:
  "(0::int) < 21 \<and>
   length (source \<lparr>cell_type = ''code'', source = [''x=1'']\<rparr>) <
     length (source \<lparr>cell_type = ''code'', source = [''a'', ''b'', ''c'', ''d'']\<rparr>) \<and>
   getHeight 21 \<lparr>cell_type = ''code'', source = [''x=1'']\<rparr> <
     getHeight 21 \<lparr>cell_type = ''code'', source = [''a'', ''b'', ''c'', ''d'']\<rparr>"
  using getHeight_monotone [of 21 "\<lparr>cell_type = ''code'', source = [''x=1'']\<rparr>"
      "\<lparr>cell_type = ''code'', source = [''a'', ''b'', ''c'', ''d'']\<rparr>"]
  by simp

text \<open>
  C10: \<open>getTemplateId\<close> answers \<open>markdown_cell\<close> exactly when \<open>hasDynamicHeight\<close> is
  true, and a cell of any type other than \<open>markdown\<close> (not only \<open>code\<close>) gets the
  \<open>code_cell\<close> template, the code-cell height and no dynamic height.
\<close>

theorem delegate_agrees_on_kind:
  "(getTemplateId c = ''markdown_cell'') = hasDynamicHeight c \<and>
   (cell_type c \<noteq> ''markdown'' \<longrightarrow>
      getTemplateId c = ''code_cell'' \<and>
      getHeight lineHeight c = max (int (length (source c)) + 1) 4 * lineHeight + 16 \<and>
      \<not> hasDynamicHeight c)"
  by (simp add: getTemplateId_def hasDynamicHeight_def getHeight_def
      MarkdownCellRenderer_TEMPLATE_ID_def CodeCellRenderer_TEMPLATE_ID_def)

theorem delegate_agrees_on_kind_witness:
  "''raw'' \<noteq> ''markdown'' \<and>
   getTemplateId \<lparr>cell_type = ''raw'', source = [''a'', ''b'', ''c'', ''d'', ''e'']\<rparr> = ''code_cell'' \<and>
   getHeight 21 \<lparr>cell_type = ''raw'', source = [''a'', ''b'', ''c'', ''d'', ''e'']\<rparr> = 6 * 21 + 16 \<and>
   \<not> hasDynamicHeight \<lparr>cell_type = ''raw'', source = [''a'', ''b'', ''c'', ''d'', ''e'']\<rparr>"
  using delegate_agrees_on_kind
    [of "\<lparr>cell_type = ''raw'', source = [''a'', ''b'', ''c'', ''d'', ''e'']\<rparr>" 21]
  by simp

section \<open>The editor host\<close>

lemma insert_model:
  "model e = Some cells \<Longrightarrow>
   \<exists>e'. insertEmptyNotebookCell e c dir = Inr e' \<and>
        model e' = Some (Array_splice (if dir = above then indexOf cells c else indexOf cells c + 1) 0
                           [next_ref e] cells) \<and>
        list e' = map_option (List_splice (if dir = above then indexOf cells c else indexOf cells c + 1) 0
                           [next_ref e]) (list e) \<and>
        heap e' = (heap e)(next_ref e := \<lparr>cell_type = ''code'', source = []\<rparr>) \<and>
        next_ref e' = Suc (next_ref e)"
  by (simp add: insertEmptyNotebookCell_def Let_def)

text \<open>
  The cells of a document are distinct objects, and stay so: an insert allocates its cell.
  In such a document a cell has one index only.
\<close>

lemma distinct_first_occurrence:
  "distinct xs \<Longrightarrow> i < length xs \<Longrightarrow> xs ! i \<notin> set (take i xs)"
  by (metis distinct_take id_take_nth_drop distinct_append disjoint_iff not_distinct_conv_prefix
      list.set_intros(1) set_append Un_iff)

lemma set_Array_splice_insert:
  "set (Array_splice start 0 [x] xs) = insert x (set xs)"
proof -
  have "\<And>k. set (take k xs @ x # drop k xs) = insert x (set xs)"
    by (metis append_take_drop_id list.simps(15) set_append Un_insert_right)
  then show ?thesis by (simp add: Array_splice_def Let_def)
qed

lemma distinct_Array_splice_insert:
  "distinct xs \<Longrightarrow> x \<notin> set xs \<Longrightarrow> distinct (Array_splice start 0 [x] xs)"
proof -
  assume d: "distinct xs" and x: "x \<notin> set xs"
  have "\<And>k. distinct (take k xs @ x # drop k xs)"
  proof -
    fix k
    have "distinct (take k xs @ drop k xs)" using d by simp
    then have "distinct (take k xs)" "distinct (drop k xs)" "set (take k xs) \<inter> set (drop k xs) = {}"
      by (simp_all only: distinct_append)
    moreover have "x \<notin> set (take k xs)" "x \<notin> set (drop k xs)"
      using x by (auto dest: in_set_takeD in_set_dropD)
    ultimately show "distinct (take k xs @ x # drop k xs)" by simp
  qed
  then show ?thesis by (simp add: Array_splice_def Let_def)
qed

lemma insert_keeps_document_distinct:
  assumes "model e = Some cells" and "distinct cells" and "\<forall>r\<in>set cells. r < next_ref e"
  shows "\<exists>e' cells'. insertEmptyNotebookCell e c dir = Inr e' \<and> model e' = Some cells' \<and>
      distinct cells' \<and> (\<forall>r\<in>set cells'. r < next_ref e')"
proof -
  from insert_model [OF assms(1), of c dir] obtain e' where e':
    "insertEmptyNotebookCell e c dir = Inr e'"
    "model e' = Some (Array_splice (if dir = above then indexOf cells c else indexOf cells c + 1) 0
                           [next_ref e] cells)"
    "next_ref e' = Suc (next_ref e)"
    by blast
  let ?cs = "Array_splice (if dir = above then indexOf cells c else indexOf cells c + 1) 0
                           [next_ref e] cells"
  have "next_ref e \<notin> set cells" using assms(3) by auto
  then have "distinct ?cs" using assms(2) by (rule distinct_Array_splice_insert [rotated])
  moreover have "\<forall>r\<in>set ?cs. r < next_ref e'"
    using assms(3) e'(3) by (auto simp add: set_Array_splice_insert)
  ultimately show ?thesis using e'(1) e'(2) by blast
qed

text \<open>
  C1: let the anchor \<open>c\<close> be in the document at index \<open>i\<close> (its first occurrence, which
  is every occurrence in a document of distinct cell objects). Inserting above gives a
  sequence one longer in which a new cell of type \<open>code\<close> with empty source is at index
  \<open>i\<close>, the anchor is at \<open>i + 1\<close>, the cells before \<open>i\<close> keep their index and the
  cells from \<open>i\<close> on move up by one. Inserting below puts the new empty code cell at
  \<open>i + 1\<close>, the cells up to \<open>i\<close> keep their index and the later ones move up by one.
  When every cell of the document is an allocated object, the new cell is none of them
  and their contents are unchanged.
\<close>

theorem insertEmptyNotebookCell_at_anchor:
  assumes m: "model e = Some cells"
    and i: "i < length cells" and c: "cells ! i = c" and first: "c \<notin> set (take i cells)"
  shows "\<exists>e1 e2 cs1 cs2.
      insertEmptyNotebookCell e c above = Inr e1 \<and> model e1 = Some cs1 \<and>
      insertEmptyNotebookCell e c below = Inr e2 \<and> model e2 = Some cs2 \<and>
      cs1 = take i cells @ next_ref e # drop i cells \<and>
      length cs1 = Suc (length cells) \<and>
      heap e1 (cs1 ! i) = \<lparr>cell_type = ''code'', source = []\<rparr> \<and>
      cs1 ! Suc i = c \<and>
      (\<forall>j<i. cs1 ! j = cells ! j) \<and>
      (\<forall>j. i \<le> j \<and> j < length cells \<longrightarrow> cs1 ! Suc j = cells ! j) \<and>
      cs2 = take (Suc i) cells @ next_ref e # drop (Suc i) cells \<and>
      length cs2 = Suc (length cells) \<and>
      heap e2 (cs2 ! Suc i) = \<lparr>cell_type = ''code'', source = []\<rparr> \<and>
      (\<forall>j\<le>i. cs2 ! j = cells ! j) \<and>
      (\<forall>j. i < j \<and> j < length cells \<longrightarrow> cs2 ! Suc j = cells ! j) \<and>
      ((\<forall>r\<in>set cells. r < next_ref e) \<longrightarrow>
         next_ref e \<notin> set cells \<and> (\<forall>r\<in>set cells. heap e1 r = heap e r \<and> heap e2 r = heap e r))"
proof -
  have idx: "indexOf cells c = int i"
    using i c first by (rule indexOf_first)
  obtain e1 where e1: "insertEmptyNotebookCell e c above = Inr e1"
    "model e1 = Some (Array_splice (int i) 0 [next_ref e] cells)"
    "heap e1 = (heap e)(next_ref e := \<lparr>cell_type = ''code'', source = []\<rparr>)"
    using insert_model [OF m, of c above] idx by auto
  obtain e2 where e2: "insertEmptyNotebookCell e c below = Inr e2"
    "model e2 = Some (Array_splice (int i + 1) 0 [next_ref e] cells)"
    "heap e2 = (heap e)(next_ref e := \<lparr>cell_type = ''code'', source = []\<rparr>)"
    using insert_model [OF m, of c below] idx by auto
  let ?cs1 = "take i cells @ next_ref e # drop i cells"
  let ?cs2 = "take (Suc i) cells @ next_ref e # drop (Suc i) cells"
  have s1: "Array_splice (int i) 0 [next_ref e] cells = ?cs1"
    using i by (simp add: splice_insert_in_range)
  have s2: "Array_splice (int i + 1) 0 [next_ref e] cells = ?cs2"
    using i splice_insert_in_range [of "Suc i" cells "[next_ref e]"] by (simp add: add.commute)
  have n1: "\<And>j. ?cs1 ! j = (if j < i then cells ! j else if j = i then next_ref e else cells ! (j - 1))"
    using i nth_insert_at [of i cells "next_ref e"] by simp
  have n2: "\<And>j. ?cs2 ! j =
      (if j < Suc i then cells ! j else if j = Suc i then next_ref e else cells ! (j - 1))"
    using i nth_insert_at [of "Suc i" cells "next_ref e"] by simp
  have m1: "model e1 = Some ?cs1" by (simp add: e1(2) s1)
  have m2: "model e2 = Some ?cs2" by (simp add: e2(2) s2)
  have a1: "length ?cs1 = Suc (length cells)" using i by simp
  have a2: "heap e1 (?cs1 ! i) = \<lparr>cell_type = ''code'', source = []\<rparr>"
    by (simp add: n1 e1(3))
  have a3: "?cs1 ! Suc i = c" using c by (simp add: n1)
  have a4: "\<forall>j<i. ?cs1 ! j = cells ! j" by (simp add: n1)
  have a5: "\<forall>j. i \<le> j \<and> j < length cells \<longrightarrow> ?cs1 ! Suc j = cells ! j" by (simp add: n1)
  have b1: "length ?cs2 = Suc (length cells)" using i by simp
  have b2: "heap e2 (?cs2 ! Suc i) = \<lparr>cell_type = ''code'', source = []\<rparr>"
    by (simp add: n2 e2(3))
  have b4: "\<forall>j\<le>i. ?cs2 ! j = cells ! j" by (simp add: n2)
  have b5: "\<forall>j. i < j \<and> j < length cells \<longrightarrow> ?cs2 ! Suc j = cells ! j" by (simp add: n2)
  have fr: "(\<forall>r\<in>set cells. r < next_ref e) \<longrightarrow>
         next_ref e \<notin> set cells \<and> (\<forall>r\<in>set cells. heap e1 r = heap e r \<and> heap e2 r = heap e r)"
    by (auto simp add: e1(3) e2(3))
  have "insertEmptyNotebookCell e c above = Inr e1 \<and> model e1 = Some ?cs1 \<and>
      insertEmptyNotebookCell e c below = Inr e2 \<and> model e2 = Some ?cs2 \<and>
      ?cs1 = take i cells @ next_ref e # drop i cells \<and>
      length ?cs1 = Suc (length cells) \<and>
      heap e1 (?cs1 ! i) = \<lparr>cell_type = ''code'', source = []\<rparr> \<and>
      ?cs1 ! Suc i = c \<and>
      (\<forall>j<i. ?cs1 ! j = cells ! j) \<and>
      (\<forall>j. i \<le> j \<and> j < length cells \<longrightarrow> ?cs1 ! Suc j = cells ! j) \<and>
      ?cs2 = take (Suc i) cells @ next_ref e # drop (Suc i) cells \<and>
      length ?cs2 = Suc (length cells) \<and>
      heap e2 (?cs2 ! Suc i) = \<lparr>cell_type = ''code'', source = []\<rparr> \<and>
      (\<forall>j\<le>i. ?cs2 ! j = cells ! j) \<and>
      (\<forall>j. i < j \<and> j < length cells \<longrightarrow> ?cs2 ! Suc j = cells ! j) \<and>
      ((\<forall>r\<in>set cells. r < next_ref e) \<longrightarrow>
         next_ref e \<notin> set cells \<and> (\<forall>r\<in>set cells. heap e1 r = heap e r \<and> heap e2 r = heap e r))"
    by (intro conjI refl e1(1) e2(1) m1 m2 a1 a2 a3 a4 a5 b1 b2 b4 b5 fr)
  then show ?thesis by (intro exI)
qed

theorem insertEmptyNotebookCell_at_anchor_witness:
  "model example_editor = Some [0, 1] \<and> (1::nat) < length [0, 1::nat] \<and> [0, 1::nat] ! 1 = 1 \<and>
   (1::nat) \<notin> set (take 1 [0, 1]) \<and>
   (\<exists>e1 e2. insertEmptyNotebookCell example_editor 1 above = Inr e1 \<and> model e1 = Some [0, 2, 1] \<and>
      insertEmptyNotebookCell example_editor 1 below = Inr e2 \<and> model e2 = Some [0, 1, 2])"
proof -
  have m: "model example_editor = Some [0, 1]" by (simp add: example_editor_def)
  have n: "next_ref example_editor = 2" by (simp add: example_editor_def)
  have i: "(1::nat) < length [0, 1::nat]" by simp
  have c: "[0, 1::nat] ! 1 = 1" by simp
  have f: "(1::nat) \<notin> set (take 1 [0, 1])" by simp
  from insertEmptyNotebookCell_at_anchor [OF m i c f] obtain e1 e2 cs1 cs2 where
    "insertEmptyNotebookCell example_editor 1 above = Inr e1" "model e1 = Some cs1"
    "insertEmptyNotebookCell example_editor 1 below = Inr e2" "model e2 = Some cs2"
    "cs1 = take 1 [0, 1] @ next_ref example_editor # drop 1 [0, 1]"
    "cs2 = take (Suc 1) [0, 1] @ next_ref example_editor # drop (Suc 1) [0, 1]"
    by blast
  then show ?thesis using m n by simp
qed

text \<open>
  C2: the claim asks for a no-op when the anchor is not in the document. The code does
  not look at the answer of \<open>indexOf\<close>: with the cells 0 and 1 in the document and the
  anchor 7, which is not among them, an insert below puts the new cell 2 at the front and
  an insert above puts it before the last cell of the document.
\<close>

theorem insertEmptyNotebookCell_absent_anchor_mutates:
  "model example_editor = Some [0, 1] \<and>
   map_sum id model (insertEmptyNotebookCell example_editor 7 below) = Inr (Some [2, 0, 1]) \<and>
   map_sum id model (insertEmptyNotebookCell example_editor 7 above) = Inr (Some [0, 2, 1])"
  by (simp add: example_editor_def insertEmptyNotebookCell_def Let_def indexOf_def
      Array_splice_def)

text \<open>
  C9: when the anchor is not in the document, the insert still happens. Below: the new
  empty code cell becomes the first cell. Above: \<open>splice\<close> is called with the index
  \<open>-1\<close>, and the new cell goes immediately before the last cell, or becomes the only
  cell of an empty document.
\<close>

theorem insertEmptyNotebookCell_absent_anchor:
  assumes m: "model e = Some cells" and absent: "c \<notin> set cells"
  shows "\<exists>e1 e2.
      insertEmptyNotebookCell e c below = Inr e1 \<and>
      model e1 = Some (next_ref e # cells) \<and>
      heap e1 (next_ref e) = \<lparr>cell_type = ''code'', source = []\<rparr> \<and>
      insertEmptyNotebookCell e c above = Inr e2 \<and>
      model e2 = Some (Array_splice (- 1) 0 [next_ref e] cells) \<and>
      model e2 = Some (if cells = [] then [next_ref e] else butlast cells @ [next_ref e, last cells]) \<and>
      heap e2 (next_ref e) = \<lparr>cell_type = ''code'', source = []\<rparr>"
proof -
  have idx: "indexOf cells c = - 1"
    using absent by (rule indexOf_absent)
  obtain e1 where e1: "insertEmptyNotebookCell e c below = Inr e1"
    "model e1 = Some (Array_splice 0 0 [next_ref e] cells)"
    "heap e1 = (heap e)(next_ref e := \<lparr>cell_type = ''code'', source = []\<rparr>)"
    using insert_model [OF m, of c below] idx by auto
  obtain e2 where e2: "insertEmptyNotebookCell e c above = Inr e2"
    "model e2 = Some (Array_splice (- 1) 0 [next_ref e] cells)"
    "heap e2 = (heap e)(next_ref e := \<lparr>cell_type = ''code'', source = []\<rparr>)"
    using insert_model [OF m, of c above] idx by auto
  have s1: "Array_splice 0 0 [next_ref e] cells = next_ref e # cells"
    using splice_insert_in_range [of 0 cells "[next_ref e]"] by simp
  have s2: "Array_splice (- 1) 0 [next_ref e] cells =
      take (length cells - 1) cells @ next_ref e # drop (length cells - 1) cells"
    by (simp add: splice_insert_minus_one)
  have s3: "take (length cells - 1) cells @ next_ref e # drop (length cells - 1) cells =
      (if cells = [] then [next_ref e] else butlast cells @ [next_ref e, last cells])"
  proof (cases "cells = []")
    case True
    then show ?thesis by simp
  next
    case False
    then have "cells = butlast cells @ [last cells]" by simp
    then have "drop (length cells - 1) cells = [last cells]"
      by (metis append_eq_conv_conj length_butlast)
    with False show ?thesis by (simp add: butlast_conv_take)
  qed
  have "insertEmptyNotebookCell e c below = Inr e1 \<and>
      model e1 = Some (next_ref e # cells) \<and>
      heap e1 (next_ref e) = \<lparr>cell_type = ''code'', source = []\<rparr> \<and>
      insertEmptyNotebookCell e c above = Inr e2 \<and>
      model e2 = Some (Array_splice (- 1) 0 [next_ref e] cells) \<and>
      model e2 = Some (if cells = [] then [next_ref e] else butlast cells @ [next_ref e, last cells]) \<and>
      heap e2 (next_ref e) = \<lparr>cell_type = ''code'', source = []\<rparr>"
    using e1 e2 s1 s2 s3 by simp
  then show ?thesis by (intro exI)
qed

theorem insertEmptyNotebookCell_absent_anchor_witness:
  "model example_editor = Some [0, 1] \<and> (7::nat) \<notin> set [0, 1] \<and>
   (\<exists>e1 e2. insertEmptyNotebookCell example_editor 7 below = Inr e1 \<and> model e1 = Some [2, 0, 1] \<and>
      insertEmptyNotebookCell example_editor 7 above = Inr e2 \<and> model e2 = Some [0, 2, 1])"
proof -
  have m: "model example_editor = Some [0, 1]" by (simp add: example_editor_def)
  have n: "next_ref example_editor = 2" by (simp add: example_editor_def)
  have a: "(7::nat) \<notin> set [0, 1]" by simp
  from insertEmptyNotebookCell_absent_anchor [OF m a] obtain e1 e2 where
    "insertEmptyNotebookCell example_editor 7 below = Inr e1"
    "model e1 = Some (next_ref example_editor # [0, 1])"
    "insertEmptyNotebookCell example_editor 7 above = Inr e2"
    "model e2 = Some (if [0, 1::nat] = [] then [next_ref example_editor]
        else butlast [0, 1] @ [next_ref example_editor, last [0, 1]])"
    by blast
  then show ?thesis using m n by simp
qed

lemma indexOf_from_present:
  "c \<in> set xs \<Longrightarrow> k \<le> indexOf_from xs c k \<and> indexOf_from xs c k < k + int (length xs)"
proof (induction xs arbitrary: k)
  case Nil
  then show ?case by simp
next
  case (Cons x xs)
  show ?case
  proof (cases "x = c")
    case True
    then show ?thesis by simp
  next
    case False
    with Cons.prems have "c \<in> set xs" by simp
    from Cons.IH [OF this, of "k + 1"] False show ?thesis by simp
  qed
qed

lemma indexOf_present:
  "c \<in> set xs \<Longrightarrow> 0 \<le> indexOf xs c \<and> indexOf xs c < int (length xs)"
  using indexOf_from_present [of c xs 0] by (simp add: indexOf_def)

lemma List_splice_in_range:
  "0 \<le> start \<Longrightarrow> start \<le> int (length rows) \<Longrightarrow>
   List_splice start deleteCount elements rows = Array_splice start deleteCount elements rows"
  by (simp add: List_splice_def List_splice_rejects_def)

text \<open>
  What holds of the two views: as long as every anchor is a cell of the document, the
  List View accepts every index, and its rows are the cells of the document.
\<close>

lemma insertAll_lockstep:
  "model e = Some xs \<Longrightarrow> list e = Some xs \<Longrightarrow> anchors_in_document e ops \<Longrightarrow>
   \<exists>e' ys. insertAll e ops = Inr e' \<and> model e' = Some ys \<and> list e' = Some ys \<and>
     length ys = length xs + length ops"
proof (induction ops arbitrary: e xs)
  case Nil
  then show ?case by simp
next
  case (Cons op ops)
  obtain c dir where op: "op = (c, dir)" by (cases op)
  let ?i = "if dir = above then indexOf xs c else indexOf xs c + 1"
  let ?ys = "Array_splice ?i 0 [next_ref e] xs"
  from Cons.prems op have present: "c \<in> set xs" by simp
  then have range: "0 \<le> ?i" "?i \<le> int (length xs)"
    using indexOf_present [of c xs] by auto
  from Cons.prems insert_model [of e xs c dir]
  obtain e1 where e1: "insertEmptyNotebookCell e c dir = Inr e1"
    "model e1 = Some ?ys" "list e1 = Some (List_splice ?i 0 [next_ref e] xs)"
    by auto
  have l1: "list e1 = Some ?ys"
    using e1(3) List_splice_in_range [OF range] by simp
  have len: "length ?ys = Suc (length xs)"
    by (simp add: Array_splice_def Let_def)
  from Cons.prems op e1(1) have rest: "anchors_in_document e1 ops" by simp
  from Cons.IH [OF e1(2) l1 rest] obtain e' ys where
    "insertAll e1 ops = Inr e'" "model e' = Some ys" "list e' = Some ys"
    "length ys = length ?ys + length ops"
    by blast
  then show ?case using op e1(1) len by simp
qed

lemma list_view_mirrors_document_of_anchors:
  assumes "list e = Some []" and "anchors_in_document (setInput e cs) ops"
  shows "\<exists>e' rows. insertAll (setInput e cs) ops = Inr e' \<and>
      list e' = Some rows \<and> model e' = Some rows \<and> length rows = length cs + length ops"
proof -
  have "model (setInput e cs) = Some cs" by (simp add: setInput_def)
  moreover have "list (setInput e cs) = Some cs"
    using assms(1)
    by (simp add: setInput_def List_splice_def List_splice_rejects_def Array_splice_def)
  ultimately show ?thesis
    using insertAll_lockstep [of "setInput e cs" cs ops] assms(2) by blast
qed

text \<open>
  C3: the claim asks that the rows of the List View and the cells of the document are
  the same sequence after any sequence of inserts. The code passes the unchecked answer
  of \<open>indexOf\<close> to both splices. After the List View, created empty, was populated with
  the cells 0 and 1, an insert above the anchor 7, which is not in the document, calls
  both with the index \<open>-1\<close>: the document takes the new cell 2 before its last cell, the
  List View rejects the index, and the two views differ from then on (three cells, two
  rows; after a further insert below the cell 0, four cells and three rows).
\<close>

theorem list_view_diverges_on_absent_anchor:
  "model example_opened = Some [0, 1] \<and> list example_opened = Some [0, 1] \<and>
   indexOf [0, 1::nat] 7 = - 1 \<and> List_splice_rejects (- 1) [0, 1::nat] \<and>
   map_sum id model (insertEmptyNotebookCell example_opened 7 above) = Inr (Some [0, 2, 1]) \<and>
   map_sum id list (insertEmptyNotebookCell example_opened 7 above) = Inr (Some [0, 1]) \<and>
   map_sum id model (insertAll example_opened [(7, above), (0, below)]) = Inr (Some [0, 3, 2, 1]) \<and>
   map_sum id list (insertAll example_opened [(7, above), (0, below)]) = Inr (Some [0, 3, 1])"
  by (simp add: example_opened_def example_editor_def setInput_def insertEmptyNotebookCell_def
      Let_def indexOf_def Array_splice_def List_splice_def List_splice_rejects_def)

section \<open>The renderers\<close>

lemma code_renderElement_effect:
  "listeners (snd (code_renderElement h rd c i t)) =
     listeners (snd rd) @ [\<lparr>l_id = next_listener (snd rd), l_node = menuContainer t, l_element = c\<rparr>] \<and>
   next_listener (snd (code_renderElement h rd c i t)) = Suc (next_listener (snd rd)) \<and>
   code_disposables (fst (code_renderElement h rd c i t)) =
     (code_disposables (fst rd))(c \<mapsto> next_listener (snd rd))"
  by (simp add: code_renderElement_def Let_def addStandardDisposableListener_def split: option.split)

lemma code_disposeElement_effect:
  "listeners (snd (code_disposeElement rd c i t)) =
     (case code_disposables (fst rd) c of
        None \<Rightarrow> listeners (snd rd)
      | Some k \<Rightarrow> filter (\<lambda>l. l_id l \<noteq> k) (listeners (snd rd))) \<and>
   next_listener (snd (code_disposeElement rd c i t)) = next_listener (snd rd) \<and>
   code_disposables (fst (code_disposeElement rd c i t)) = (code_disposables (fst rd))(c := None)"
  by (auto simp add: code_disposeElement_def Let_def dispose_def split: option.split)

lemma md_renderElement_effect:
  "listeners (snd (md_renderElement marked h rd c i t)) =
     (case md_disposables (fst rd) (menuContainer t) of
        None \<Rightarrow> listeners (snd rd)
      | Some k \<Rightarrow> filter (\<lambda>l. l_id l \<noteq> k) (listeners (snd rd)))
     @ [\<lparr>l_id = next_listener (snd rd), l_node = menuContainer t, l_element = c\<rparr>] \<and>
   next_listener (snd (md_renderElement marked h rd c i t)) = Suc (next_listener (snd rd)) \<and>
   md_disposables (fst (md_renderElement marked h rd c i t)) =
     (md_disposables (fst rd))(menuContainer t \<mapsto> next_listener (snd rd))"
  by (auto simp add: md_renderElement_def Let_def addStandardDisposableListener_def dispose_def
      split: option.split)

lemma code_inv_render:
  assumes inv: "code_inv rd b"
    and free: "menuContainer t \<notin> fst ` set b" and unbound: "c \<notin> snd ` set b"
  shows "code_inv (code_renderElement h rd c i t) (b @ [(menuContainer t, c)])"
proof -
  let ?ls = "listeners (snd rd)"
  let ?new = "\<lparr>l_id = next_listener (snd rd), l_node = menuContainer t, l_element = c\<rparr>"
  let ?rd' = "code_renderElement h rd c i t"
  have ls': "listeners (snd ?rd') = ?ls @ [?new]"
    and nx': "next_listener (snd ?rd') = Suc (next_listener (snd rd))"
    and mp': "code_disposables (fst ?rd') = (code_disposables (fst rd))(c \<mapsto> next_listener (snd rd))"
    by (simp_all add: code_renderElement_effect)
  from inv have b: "map slot_of ?ls = b"
    and mp: "\<forall>l\<in>set ?ls. code_disposables (fst rd) (l_element l) = Some (l_id l)"
    and ids: "\<forall>l\<in>set ?ls. l_id l < next_listener (snd rd)"
    and dist: "distinct (map l_id ?ls)"
    and dc: "distinct (map snd b)" and dn: "distinct (map fst b)"
    by (simp_all add: code_inv_def)
  have other: "\<forall>l\<in>set ?ls. l_element l \<noteq> c"
  proof
    fix l assume l: "l \<in> set ?ls"
    show "l_element l \<noteq> c"
    proof
      assume "l_element l = c"
      with l have "c \<in> snd ` set (map slot_of ?ls)" by (force simp add: slot_of_def)
      with b unbound show False by simp
    qed
  qed
  have 1: "map slot_of (?ls @ [?new]) = b @ [(menuContainer t, c)]"
    using b by (simp add: slot_of_def)
  have 2: "\<forall>l\<in>set (?ls @ [?new]).
      ((code_disposables (fst rd))(c \<mapsto> next_listener (snd rd))) (l_element l) = Some (l_id l)"
    using mp other by simp
  have 3: "\<forall>l\<in>set (?ls @ [?new]). l_id l < Suc (next_listener (snd rd))"
    using ids by (simp add: less_Suc_eq)
  have "next_listener (snd rd) \<notin> l_id ` set ?ls"
    using ids by auto
  then have 4: "distinct (map l_id (?ls @ [?new]))"
    using dist by simp
  have 5: "distinct (map snd (b @ [(menuContainer t, c)]))"
    using dc unbound by simp
  have 6: "distinct (map fst (b @ [(menuContainer t, c)]))"
    using dn free by simp
  show ?thesis
    unfolding code_inv_def ls' nx' mp'
    using 1 2 3 4 5 6 by (intro conjI)
qed

lemma code_inv_dispose:
  assumes inv: "code_inv rd b" and shown: "(menuContainer t, c) \<in> set b"
  shows "code_inv (code_disposeElement rd c i t) (filter (\<lambda>p. p \<noteq> (menuContainer t, c)) b)"
proof -
  let ?ls = "listeners (snd rd)"
  from inv have b: "map slot_of ?ls = b" by (simp add: code_inv_def)
  from shown b obtain l0 where l0: "l0 \<in> set ?ls" "slot_of l0 = (menuContainer t, c)"
    by auto
  from inv l0 have k: "code_disposables (fst rd) c = Some (l_id l0)"
    by (auto simp add: code_inv_def slot_of_def)
  from inv have inj: "inj_on l_id (set ?ls)"
    by (simp add: code_inv_def distinct_map)
  from inv have cells: "inj_on snd (set b)"
    by (simp add: code_inv_def distinct_map)
  have same: "\<And>l. l \<in> set ?ls \<Longrightarrow> (l_id l \<noteq> l_id l0) = (slot_of l \<noteq> (menuContainer t, c))"
  proof -
    fix l assume l: "l \<in> set ?ls"
    show "(l_id l \<noteq> l_id l0) = (slot_of l \<noteq> (menuContainer t, c))"
    proof (cases "l = l0")
      case True
      then show ?thesis using l0 by simp
    next
      case False
      with inj l l0 have ne: "l_id l \<noteq> l_id l0" by (auto dest: inj_onD)
      have "slot_of l \<noteq> (menuContainer t, c)"
      proof
        assume eq: "slot_of l = (menuContainer t, c)"
        then have "l_element l = c" by (simp add: slot_of_def)
        with inv l have "code_disposables (fst rd) c = Some (l_id l)"
          by (auto simp add: code_inv_def)
        with k ne show False by simp
      qed
      with ne show ?thesis by simp
    qed
  qed
  have filt: "map slot_of (filter (\<lambda>l. l_id l \<noteq> l_id l0) ?ls) =
      filter (\<lambda>p. p \<noteq> (menuContainer t, c)) (map slot_of ?ls)"
    using same by (simp add: filter_map o_def cong: filter_cong)
  let ?ls' = "filter (\<lambda>l. l_id l \<noteq> l_id l0) ?ls"
  let ?rd' = "code_disposeElement rd c i t"
  have ls': "listeners (snd ?rd') = ?ls'"
    and nx': "next_listener (snd ?rd') = next_listener (snd rd)"
    and mp': "code_disposables (fst ?rd') = (code_disposables (fst rd))(c := None)"
    using k by (simp_all add: code_disposeElement_effect)
  have rest: "\<forall>l\<in>set ?ls'. l_element l \<noteq> c"
  proof
    fix l assume l: "l \<in> set ?ls'"
    show "l_element l \<noteq> c"
    proof
      assume "l_element l = c"
      with inv l have "code_disposables (fst rd) c = Some (l_id l)" by (auto simp add: code_inv_def)
      with k l show False by simp
    qed
  qed
  have 1: "map slot_of ?ls' = filter (\<lambda>p. p \<noteq> (menuContainer t, c)) b"
    using filt b by simp
  have 2: "\<forall>l\<in>set ?ls'. ((code_disposables (fst rd))(c := None)) (l_element l) = Some (l_id l)"
    using inv rest by (simp add: code_inv_def)
  have 3: "\<forall>l\<in>set ?ls'. l_id l < next_listener (snd rd)"
    using inv by (simp add: code_inv_def)
  have 4: "distinct (map l_id ?ls')"
    using inv by (simp add: code_inv_def distinct_map_filter)
  have 5: "distinct (map snd (filter (\<lambda>p. p \<noteq> (menuContainer t, c)) b))"
    using inv by (simp add: code_inv_def distinct_map_filter)
  have 6: "distinct (map fst (filter (\<lambda>p. p \<noteq> (menuContainer t, c)) b))"
    using inv by (simp add: code_inv_def distinct_map_filter)
  show ?thesis
    unfolding code_inv_def ls' nx' mp'
    using 1 2 3 4 5 6 by (intro conjI)
qed

lemma code_inv_calls:
  "code_inv rd b \<Longrightarrow> recycle_protocol b calls \<Longrightarrow>
   code_inv (code_calls h rd calls) (code_shown b calls)"
proof (induction calls arbitrary: rd b)
  case Nil
  then show ?case by simp
next
  case (Cons x calls)
  show ?case
  proof (cases x)
    case (RenderElement c i t)
    with Cons.prems have "code_inv (code_renderElement h rd c i t) (b @ [(menuContainer t, c)])"
      by (simp add: code_inv_render)
    with Cons.IH Cons.prems RenderElement show ?thesis by simp
  next
    case (DisposeElement c i t)
    with Cons.prems have "code_inv (code_disposeElement rd c i t)
        (filter (\<lambda>p. p \<noteq> (menuContainer t, c)) b)"
      by (simp add: code_inv_dispose)
    with Cons.IH Cons.prems DisposeElement show ?thesis by simp
  qed
qed

lemma at_most_one_shown:
  "distinct (map fst b) \<Longrightarrow> length (filter (\<lambda>p. fst p = n) b) \<le> 1"
proof (induction b)
  case Nil
  then show ?case by simp
next
  case (Cons p b)
  show ?case
  proof (cases "fst p = n")
    case True
    with Cons.prems have "n \<notin> fst ` set b" by simp
    then have "filter (\<lambda>q. fst q = n) b = []"
      by (force simp add: filter_empty_conv)
    with True show ?thesis by simp
  next
    case False
    with Cons show ?thesis by simp
  qed
qed

lemma slots_fire:
  assumes "map slot_of (listeners d) = b" and "distinct (map fst b)"
  shows "mousedown d n = shown_in b n \<and> length (listeners_on d n) \<le> 1"
proof -
  have f: "filter (\<lambda>p. fst p = n) (map slot_of (listeners d)) =
      map slot_of (filter (\<lambda>l. l_node l = n) (listeners d))"
    by (simp add: filter_map o_def slot_of_def)
  have "shown_in (map slot_of (listeners d)) n = mousedown d n"
    unfolding shown_in_def mousedown_def f by (simp add: o_def slot_of_def)
  then have 1: "mousedown d n = shown_in b n"
    using assms(1) by simp
  have "length (listeners_on d n) = length (filter (\<lambda>p. fst p = n) (map slot_of (listeners d)))"
    unfolding f listeners_on_def by simp
  then have "length (listeners_on d n) = length (filter (\<lambda>p. fst p = n) b)"
    using assms(1) by simp
  with 1 show ?thesis using at_most_one_shown [OF assms(2), of n] by simp
qed

lemma md_inv_render:
  assumes inv: "md_inv rd b"
  shows "md_inv (md_renderElement marked h rd c i t)
           (filter (\<lambda>p. fst p \<noteq> menuContainer t) b @ [(menuContainer t, c)])"
proof -
  let ?ls = "listeners (snd rd)"
  let ?n = "menuContainer t"
  let ?new = "\<lparr>l_id = next_listener (snd rd), l_node = ?n, l_element = c\<rparr>"
  let ?rd' = "md_renderElement marked h rd c i t"
  let ?ls' = "filter (\<lambda>l. l_node l \<noteq> ?n) ?ls"
  from inv have b: "map slot_of ?ls = b"
    and mp: "\<forall>l\<in>set ?ls. md_disposables (fst rd) (l_node l) = Some (l_id l)"
    and ids: "\<forall>l\<in>set ?ls. l_id l < next_listener (snd rd)"
    and dist: "distinct (map l_id ?ls)"
    and dn: "distinct (map fst b)"
    and owned: "\<forall>n k. md_disposables (fst rd) n = Some k \<longrightarrow>
         (\<exists>l\<in>set ?ls. l_node l = n \<and> l_id l = k)"
    by (simp_all add: md_inv_def)
  from dist have inj: "inj_on l_id (set ?ls)" by (simp add: distinct_map)
  have kept: "(case md_disposables (fst rd) ?n of
        None \<Rightarrow> ?ls
      | Some k \<Rightarrow> filter (\<lambda>l. l_id l \<noteq> k) ?ls) = ?ls'"
  proof (cases "md_disposables (fst rd) ?n")
    case None
    with mp have "\<forall>l\<in>set ?ls. l_node l \<noteq> ?n" by auto
    then have "?ls' = ?ls" by simp
    with None show ?thesis by simp
  next
    case (Some k)
    with owned obtain l0 where l0: "l0 \<in> set ?ls" "l_node l0 = ?n" "l_id l0 = k" by blast
    have "\<forall>l\<in>set ?ls. (l_id l \<noteq> k) = (l_node l \<noteq> ?n)"
    proof
      fix l assume l: "l \<in> set ?ls"
      show "(l_id l \<noteq> k) = (l_node l \<noteq> ?n)"
      proof (cases "l_node l = ?n")
        case True
        with mp l Some show ?thesis by auto
      next
        case False
        with l0 have "l \<noteq> l0" by auto
        with inj l l0 have "l_id l \<noteq> k" by (auto dest: inj_onD)
        with False show ?thesis by simp
      qed
    qed
    then have "filter (\<lambda>l. l_id l \<noteq> k) ?ls = ?ls'" by (simp cong: filter_cong)
    with Some show ?thesis by simp
  qed
  have ls': "listeners (snd ?rd') = ?ls' @ [?new]"
    and nx': "next_listener (snd ?rd') = Suc (next_listener (snd rd))"
    and mp': "md_disposables (fst ?rd') = (md_disposables (fst rd))(?n \<mapsto> next_listener (snd rd))"
    using kept by (simp_all add: md_renderElement_effect)
  have "map slot_of ?ls' = filter (\<lambda>p. fst p \<noteq> ?n) (map slot_of ?ls)"
    by (simp add: filter_map o_def slot_of_def)
  then have 1: "map slot_of (?ls' @ [?new]) = filter (\<lambda>p. fst p \<noteq> ?n) b @ [(?n, c)]"
    using b by (simp add: slot_of_def)
  have 2: "\<forall>l\<in>set (?ls' @ [?new]).
      ((md_disposables (fst rd))(?n \<mapsto> next_listener (snd rd))) (l_node l) = Some (l_id l)"
    using mp by simp
  have 3: "\<forall>l\<in>set (?ls' @ [?new]). l_id l < Suc (next_listener (snd rd))"
    using ids by (simp add: less_Suc_eq)
  have "next_listener (snd rd) \<notin> l_id ` set ?ls'"
    using ids by auto
  then have 4: "distinct (map l_id (?ls' @ [?new]))"
    using dist by (simp add: distinct_map_filter)
  have "?n \<notin> fst ` set (filter (\<lambda>p. fst p \<noteq> ?n) b)" by auto
  then have 5: "distinct (map fst (filter (\<lambda>p. fst p \<noteq> ?n) b @ [(?n, c)]))"
    using dn by (simp add: distinct_map_filter)
  have 6: "\<forall>n k. ((md_disposables (fst rd))(?n \<mapsto> next_listener (snd rd))) n = Some k \<longrightarrow>
         (\<exists>l\<in>set (?ls' @ [?new]). l_node l = n \<and> l_id l = k)"
  proof (intro allI impI)
    fix n k
    assume a: "((md_disposables (fst rd))(?n \<mapsto> next_listener (snd rd))) n = Some k"
    show "\<exists>l\<in>set (?ls' @ [?new]). l_node l = n \<and> l_id l = k"
    proof (cases "n = ?n")
      case True
      with a show ?thesis by simp
    next
      case False
      with a have "md_disposables (fst rd) n = Some k" by simp
      with owned obtain l where "l \<in> set ?ls" "l_node l = n" "l_id l = k" by blast
      with False have "l \<in> set ?ls' \<and> l_node l = n \<and> l_id l = k" by simp
      then show ?thesis by auto
    qed
  qed
  show ?thesis
    unfolding md_inv_def ls' nx' mp'
    using 1 2 3 4 5 6 by (intro conjI)
qed

lemma md_inv_calls:
  "md_inv rd b \<Longrightarrow> md_inv (md_calls marked h rd calls) (md_shown b calls)"
proof (induction calls arbitrary: rd b)
  case Nil
  then show ?case by simp
next
  case (Cons x calls)
  show ?case
  proof (cases x)
    case (RenderElement c i t)
    from Cons.prems have "md_inv (md_renderElement marked h rd c i t)
        (filter (\<lambda>p. fst p \<noteq> menuContainer t) b @ [(menuContainer t, c)])"
      by (rule md_inv_render)
    with Cons.IH RenderElement show ?thesis by simp
  next
    case (DisposeElement c i t)
    with Cons.IH Cons.prems show ?thesis by simp
  qed
qed

lemma md_inv_init: "listeners d = [] \<Longrightarrow> md_inv (\<lparr>md_disposables = Map.empty\<rparr>, d) []"
  by (simp add: md_inv_def)

lemma code_inv_init: "listeners d = [] \<Longrightarrow> code_inv (\<lparr>code_disposables = Map.empty\<rparr>, d) []"
  by (simp add: code_inv_def)

text \<open>
  C5, as the claim states it, fails for the code renderer: two \<open>renderElement\<close> calls on
  the same template with different cells and no \<open>disposeElement\<close> in between leave two
  live listeners on the template's menu container, and a click opens the context menu
  for the earlier cell as well as for the later one.
\<close>

theorem code_renderElement_twice_two_listeners:
  "mousedown (snd (code_calls example_heap (\<lparr>code_disposables = Map.empty\<rparr>, example_dom)
      [RenderElement 1 0 example_template, RenderElement 2 0 example_template]))
     (menuContainer example_template) = [1, 2] \<and>
   length (listeners_on (snd (code_calls example_heap (\<lparr>code_disposables = Map.empty\<rparr>, example_dom)
      [RenderElement 1 0 example_template, RenderElement 2 0 example_template]))
     (menuContainer example_template)) = 2"
  by (simp add: code_renderElement_def Let_def addStandardDisposableListener_def mousedown_def
      listeners_on_def example_dom_def example_template_def)

text \<open>
  C5, amended. On a page that starts without listeners:
  the markdown renderer, after any sequence of calls, has at most one live listener on
  every menu container, and a click on it opens the context menu exactly for the cell the
  slot was last populated with (for no cell if it never was);
  the code renderer, after any sequence of calls that follows the recycle protocol (a
  slot is populated only while it shows no cell, a cell only while no slot shows it, and
  \<open>disposeElement\<close> is called for a cell and the slot showing it), has at most one live
  listener on every menu container, and a click on it opens the context menu exactly for
  the cell the slot shows (for no cell if it shows none).
\<close>

theorem context_menu_listeners_per_slot:
  assumes "listeners d = []"
  shows "(mousedown (snd (md_calls marked h (\<lparr>md_disposables = Map.empty\<rparr>, d) calls)) n =
            shown_in (md_shown [] calls) n \<and>
          length (shown_in (md_shown [] calls) n) \<le> 1 \<and>
          length (listeners_on (snd (md_calls marked h (\<lparr>md_disposables = Map.empty\<rparr>, d) calls)) n) \<le> 1) \<and>
         (recycle_protocol [] calls \<longrightarrow>
            mousedown (snd (code_calls h (\<lparr>code_disposables = Map.empty\<rparr>, d) calls)) n =
              shown_in (code_shown [] calls) n \<and>
            length (shown_in (code_shown [] calls) n) \<le> 1 \<and>
            length (listeners_on (snd (code_calls h (\<lparr>code_disposables = Map.empty\<rparr>, d) calls)) n) \<le> 1)"
proof -
  let ?md = "md_calls marked h (\<lparr>md_disposables = Map.empty\<rparr>, d) calls"
  let ?code = "code_calls h (\<lparr>code_disposables = Map.empty\<rparr>, d) calls"
  have "md_inv ?md (md_shown [] calls)"
    using assms by (intro md_inv_calls md_inv_init)
  then have md: "mousedown (snd ?md) n = shown_in (md_shown [] calls) n \<and>
      length (listeners_on (snd ?md) n) \<le> 1"
    by (intro slots_fire) (simp_all add: md_inv_def)
  have md1: "length (shown_in (md_shown [] calls) n) \<le> 1"
    using md by (metis length_map listeners_on_def mousedown_def)
  have code: "mousedown (snd ?code) n = shown_in (code_shown [] calls) n \<and>
      length (shown_in (code_shown [] calls) n) \<le> 1 \<and>
      length (listeners_on (snd ?code) n) \<le> 1"
    if "recycle_protocol [] calls"
  proof -
    have "code_inv ?code (code_shown [] calls)"
      using assms that by (intro code_inv_calls code_inv_init)
    then have c: "mousedown (snd ?code) n = shown_in (code_shown [] calls) n \<and>
        length (listeners_on (snd ?code) n) \<le> 1"
      by (intro slots_fire) (simp_all add: code_inv_def)
    then have "length (shown_in (code_shown [] calls) n) \<le> 1"
      by (metis length_map listeners_on_def mousedown_def)
    with c show ?thesis by simp
  qed
  from md md1 code show ?thesis by blast
qed

theorem context_menu_listeners_per_slot_witness:
  "listeners example_dom = [] \<and>
   recycle_protocol []
     [RenderElement 1 0 example_template, DisposeElement 1 0 example_template,
      RenderElement 2 0 example_template] \<and>
   mousedown (snd (md_calls (\<lambda>src r. src) example_heap (\<lparr>md_disposables = Map.empty\<rparr>, example_dom)
     [RenderElement 1 0 example_template, DisposeElement 1 0 example_template,
      RenderElement 2 0 example_template])) (menuContainer example_template) = [2] \<and>
   mousedown (snd (code_calls example_heap (\<lparr>code_disposables = Map.empty\<rparr>, example_dom)
     [RenderElement 1 0 example_template, DisposeElement 1 0 example_template,
      RenderElement 2 0 example_template])) (menuContainer example_template) = [2]"
proof -
  have d: "listeners example_dom = []" by (simp add: example_dom_def)
  have p: "recycle_protocol []
     [RenderElement 1 0 example_template, DisposeElement 1 0 example_template,
      RenderElement 2 0 example_template]"
    by simp
  from context_menu_listeners_per_slot [OF d, of "\<lambda>src r. src" example_heap
      "[RenderElement 1 0 example_template, DisposeElement 1 0 example_template,
        RenderElement 2 0 example_template]" "menuContainer example_template"] p
  show ?thesis using d by (simp add: shown_in_def)
qed

text \<open>
  C8: on a template that has an embedded editor, \<open>renderElement\<close> of the code renderer
  lays the editor out to the height \<open>max (n + 1) 4 * 21\<close>, where \<open>n\<close> is the number of
  source lines of the cell, and to the width of the cell container, after binding a text
  model of the joined source.
\<close>

theorem code_renderElement_layout:
  assumes "editor t = Some ed"
  shows "layoutHeight (editors (snd (code_renderElement h rd c i t)) ed) =
           max (int (length (source (h c))) + 1) 4 * 21 \<and>
         layoutWidth (editors (snd (code_renderElement h rd c i t)) ed) =
           clientWidth (snd rd) (cellContainer t) \<and>
         textModel (editors (snd (code_renderElement h rd c i t)) ed) = Some (concat (source (h c)))"
  using assms
  by (simp add: code_renderElement_def Let_def addStandardDisposableListener_def)

theorem code_renderElement_layout_witness:
  "editor example_template = Some 0 \<and>
   layoutHeight (editors (snd (code_renderElement example_heap
     (\<lparr>code_disposables = Map.empty\<rparr>, example_dom) 1 0 example_template)) 0) = 84 \<and>
   layoutWidth (editors (snd (code_renderElement example_heap
     (\<lparr>code_disposables = Map.empty\<rparr>, example_dom) 1 0 example_template)) 0) = 800"
proof -
  have e: "editor example_template = Some 0" by (simp add: example_template_def)
  from code_renderElement_layout [OF e, of example_heap
      "(\<lparr>code_disposables = Map.empty\<rparr>, example_dom)" 1 0]
  show ?thesis using e by (simp add: example_heap_def example_dom_def example_template_def)
qed

end
